theory Spec2Isabelle
  imports Main "HOL-Library.Sublist"
begin

section \<open>Strings and regular expressions as \<^verbatim>\<open>utils.ts\<close> uses them\<close>

text \<open>
  A JavaScript string is a sequence of code units; it is modelled as a \<^typ>\<open>string\<close>.
  The functions of \<^verbatim>\<open>src/utils/utils.ts\<close> inspect only the ASCII characters
  \<^verbatim>\<open>/\<close>, \<^verbatim>\<open>.\<close>, \<^verbatim>\<open>|\<close>, the backslash and the letters of the file extensions;
  every other code unit is copied unchanged.
\<close>

abbreviation bslash :: char where
  "bslash \<equiv> CHR 0x5C"

text \<open>
  The regular expression literals of the file are kept as syntax trees, one constructor per
  construct that occurs in them: a literal character, \<^verbatim>\<open>.\<close>, \<^verbatim>\<open>^\<close>, \<^verbatim>\<open>$\<close>,
  concatenation, alternation \<^verbatim>\<open>|\<close>, \<^verbatim>\<open>?\<close> and \<^verbatim>\<open>*\<close>; \<^verbatim>\<open>r+\<close> is \<^verbatim>\<open>rr*\<close>.
\<close>

datatype rx = Eps | Chr char | Dot | Bol | Eol | Seq rx rx | Alt rx rx | Opt rx | Star rx

definition Plus :: "rx \<Rightarrow> rx" where
  "Plus r = Seq r (Star r)"

fun lit :: "string \<Rightarrow> rx" where
  "lit [] = Eps"
| "lit [c] = Chr c"
| "lit (c # cs) = Seq (Chr c) (lit cs)"

text \<open>
  With the flag \<^verbatim>\<open>i\<close> two characters match when their canonical forms (upper case)
  agree. Only the ASCII letters are folded here.
\<close>

definition canonicalize :: "char \<Rightarrow> char" where
  "canonicalize c =
     (if 97 \<le> (of_char c :: nat) \<and> (of_char c :: nat) \<le> 122
      then char_of ((of_char c :: nat) - 32) else c)"

definition chr_eq :: "bool \<Rightarrow> char \<Rightarrow> char \<Rightarrow> bool" where
  "chr_eq ic c x = (if ic then canonicalize c = canonicalize x else c = x)"

definition line_terminator :: "char \<Rightarrow> bool" where
  "line_terminator x = (x = CHR 0x0A \<or> x = CHR 0x0D)"

text \<open>
  The backtracking matcher of ECMAScript, in continuation-passing style.
  \<open>rx_match ic r b s k\<close> matches \<open>r\<close> at the front of \<open>s\<close> and hands what is left to the
  continuation \<open>k\<close>; \<open>b\<close> says that \<open>s\<close> is the whole input (nothing consumed yet), which
  is what \<^verbatim>\<open>^\<close> tests, and \<open>ic\<close> is the flag \<^verbatim>\<open>i\<close>. Alternatives are tried left to
  right, \<^verbatim>\<open>?\<close> and \<^verbatim>\<open>*\<close> are greedy, and an iteration of \<^verbatim>\<open>*\<close> that consumes nothing is
  rejected, as the language definition says.
\<close>

fun rx_match :: "bool \<Rightarrow> rx \<Rightarrow> bool \<Rightarrow> string \<Rightarrow> (bool \<Rightarrow> string \<Rightarrow> 'a option) \<Rightarrow> 'a option" where
  "rx_match ic Eps b s k = k b s"
| "rx_match ic (Chr c) b s k =
     (case s of [] \<Rightarrow> None | x # xs \<Rightarrow> if chr_eq ic c x then k False xs else None)"
| "rx_match ic Dot b s k =
     (case s of [] \<Rightarrow> None | x # xs \<Rightarrow> if line_terminator x then None else k False xs)"
| "rx_match ic Bol b s k = (if b then k b s else None)"
| "rx_match ic Eol b s k = (if s = [] then k b s else None)"
| "rx_match ic (Seq r1 r2) b s k = rx_match ic r1 b s (\<lambda>b' s'. rx_match ic r2 b' s' k)"
| "rx_match ic (Alt r1 r2) b s k =
     (case rx_match ic r1 b s k of Some y \<Rightarrow> Some y | None \<Rightarrow> rx_match ic r2 b s k)"
| "rx_match ic (Opt r) b s k =
     (case rx_match ic r b s k of Some y \<Rightarrow> Some y | None \<Rightarrow> k b s)"
| "rx_match ic (Star r) b s k =
     (case rx_match ic r b s
             (\<lambda>b' s'. if length s' < length s then rx_match ic (Star r) b' s' k else None) of
        Some y \<Rightarrow> Some y
      | None \<Rightarrow> k b s)"

declare rx_match.simps(9) [simp del]

text \<open>
  \<^verbatim>\<open>regex.exec(s)\<close> for a regular expression without the flag \<^verbatim>\<open>g\<close>: the leftmost
  position at which the expression matches. The result is the index of the match and the
  text after it; \<open>None\<close> is \<^verbatim>\<open>null\<close>.
\<close>

fun rx_search :: "bool \<Rightarrow> rx \<Rightarrow> bool \<Rightarrow> string \<Rightarrow> (nat \<times> string) option" where
  "rx_search ic r b [] = map_option (Pair 0) (rx_match ic r b [] (\<lambda>_. Some))"
| "rx_search ic r b (c # cs) =
     (case rx_match ic r b (c # cs) (\<lambda>_. Some) of
        Some t \<Rightarrow> Some (0, t)
      | None \<Rightarrow> map_option (\<lambda>(n, t). (Suc n, t)) (rx_search ic r False cs))"

definition rx_exec :: "bool \<Rightarrow> rx \<Rightarrow> string \<Rightarrow> (nat \<times> string) option" where
  "rx_exec ic r s = rx_search ic r True s"

text \<open>
  \<^verbatim>\<open>s.replace(regex, repl)\<close> without the flag \<^verbatim>\<open>g\<close> replaces the first match only.
  The replacement text is taken literally (the file only ever passes \<^verbatim>\<open>''\<close> and \<^verbatim>\<open>'/'\<close>).
\<close>

definition replace_rx :: "bool \<Rightarrow> rx \<Rightarrow> string \<Rightarrow> string \<Rightarrow> string" where
  "replace_rx ic r repl s =
     (case rx_exec ic r s of None \<Rightarrow> s | Some (n, t) \<Rightarrow> take n s @ repl @ t)"

text \<open>
  With the flag \<^verbatim>\<open>g\<close> every match is replaced, scanning from left to right; after an
  empty match the scan moves on by one character.
\<close>

function replace_from :: "bool \<Rightarrow> rx \<Rightarrow> string \<Rightarrow> bool \<Rightarrow> string \<Rightarrow> string" where
  "replace_from ic r repl b s =
     (case rx_match ic r b s (\<lambda>_. Some) of
        Some t \<Rightarrow>
          if length t < length s then repl @ replace_from ic r repl False t
          else repl @ (case s of [] \<Rightarrow> [] | c # cs \<Rightarrow> c # replace_from ic r repl False cs)
      | None \<Rightarrow> (case s of [] \<Rightarrow> [] | c # cs \<Rightarrow> c # replace_from ic r repl False cs))"
  by pat_completeness auto
termination
  by (relation "measure (\<lambda>(ic, r, repl, b, s). length s)") auto

declare replace_from.simps [simp del]

definition replace_all_rx :: "bool \<Rightarrow> rx \<Rightarrow> string \<Rightarrow> string \<Rightarrow> string" where
  "replace_all_rx ic r repl s = replace_from ic r repl True s"

text \<open>
  \<^verbatim>\<open>s.replace(pat, repl)\<close> with a string pattern replaces the first occurrence of the
  pattern, wherever it stands; the empty pattern occurs at index 0.
\<close>

fun replace_str :: "string \<Rightarrow> string \<Rightarrow> string \<Rightarrow> string" where
  "replace_str pat repl [] = (if pat = [] then repl else [])"
| "replace_str pat repl (c # cs) =
     (if prefix pat (c # cs) then repl @ drop (length pat) (c # cs)
      else c # replace_str pat repl cs)"

text \<open>
  \<^verbatim>\<open>s.split(sep)\<close> for a separator of one character. The result is never empty; the
  branch for an empty tail only makes the function total.
\<close>

fun split_chr :: "char \<Rightarrow> string \<Rightarrow> string list" where
  "split_chr sep [] = [[]]"
| "split_chr sep (c # cs) =
     (if c = sep then [] # split_chr sep cs
      else (case split_chr sep cs of [] \<Rightarrow> [[c]] | x # xs \<Rightarrow> (c # x) # xs))"

text \<open>
  \<^verbatim>\<open>path.basename(p)\<close> of Node.js, in its POSIX form: trailing slashes are dropped and
  the text after the last remaining slash is returned. (On Windows the function also
  takes the backslash for a separator.)
\<close>

definition basename :: "string \<Rightarrow> string" where
  "basename p = rev (takeWhile (\<lambda>c. c \<noteq> CHR ''/'') (dropWhile (\<lambda>c. c = CHR ''/'') (rev p)))"

section \<open>Path utilities (utils.ts, lines 8 to 24)\<close>

text \<open>
  \<^verbatim>\<open>const allExtsRegex = /\.(md|png|jpg|jpeg|svg|gif)/;\<close>
  \<^verbatim>\<open>const markdownExtRegex = /\.md$/;\<close>
  \<^verbatim>\<open>const imageExtsRegex = /\.(png|jpg|jpeg|svg|gif)/;\<close>
\<close>

definition allExtsRegex :: rx where
  "allExtsRegex = Seq (Chr CHR ''.'')
     (Alt (lit ''md'') (Alt (lit ''png'') (Alt (lit ''jpg'')
       (Alt (lit ''jpeg'') (Alt (lit ''svg'') (lit ''gif''))))))"

definition markdownExtRegex :: rx where
  "markdownExtRegex = Seq (Chr CHR ''.'') (Seq (lit ''md'') Eol)"

definition imageExtsRegex :: rx where
  "imageExtsRegex = Seq (Chr CHR ''.'')
     (Alt (lit ''png'') (Alt (lit ''jpg'') (Alt (lit ''jpeg'') (Alt (lit ''svg'') (lit ''gif'')))))"

text \<open>
  \<^verbatim>\<open>containsImageExt = (path) => !!imageExtsRegex.exec(path)\<close>, and the same for
  markdown.
\<close>

definition containsImageExt :: "string \<Rightarrow> bool" where
  "containsImageExt path = (rx_exec False imageExtsRegex path \<noteq> None)"

definition containsMarkdownExt :: "string \<Rightarrow> bool" where
  "containsMarkdownExt path = (rx_exec False markdownExtRegex path \<noteq> None)"

text \<open>
  \<^verbatim>\<open>trimLeadingSlash = (value) => value.replace(/^\/+|^\\+/g, '')\<close>
  \<^verbatim>\<open>trimTrailingSlash = (value) => value.replace(/\/+|^\\+$/g, '')\<close>
  \<^verbatim>\<open>trimSlashes = (value) => trimLeadingSlash(trimTrailingSlash(value))\<close>

  Alternation binds weakest, so the second expression reads: a run of slashes (anywhere),
  or a whole input made of backslashes.
\<close>

definition leadingSlashRegex :: rx where
  "leadingSlashRegex = Alt (Seq Bol (Plus (Chr CHR ''/''))) (Seq Bol (Plus (Chr bslash)))"

definition trailingSlashRegex :: rx where
  "trailingSlashRegex = Alt (Plus (Chr CHR ''/'')) (Seq Bol (Seq (Plus (Chr bslash)) Eol))"

definition trimLeadingSlash :: "string \<Rightarrow> string" where
  "trimLeadingSlash v = replace_all_rx False leadingSlashRegex [] v"

definition trimTrailingSlash :: "string \<Rightarrow> string" where
  "trimTrailingSlash v = replace_all_rx False trailingSlashRegex [] v"

definition trimSlashes :: "string \<Rightarrow> string" where
  "trimSlashes v = trimLeadingSlash (trimTrailingSlash v)"

text \<open>\<^verbatim>\<open>isLongRef = (path) => path.split('/').length > 1\<close>\<close>

definition isLongRef :: "string \<Rightarrow> bool" where
  "isLongRef path = (length (split_chr CHR ''/'' path) > 1)"

section \<open>The reference token parser (utils.ts, lines 26 to 82)\<close>

text \<open>
  Modelled from the spec: the type \<^verbatim>\<open>RefT\<close> is declared in \<^verbatim>\<open>../types\<close>, which is not
  among the sources. Section 3 of the specification gives it as a reference and a label,
  both strings, and lines 39 to 42 build it so.
\<close>

record RefT =
  ref :: string
  label :: string

text \<open>
  \<^verbatim>\<open>const [refStr, label = ''] = xs; return { ref: refStr, label }\<close>: the first element,
  and the second one or the empty string when there is none.
\<close>

definition destructure :: "string list \<Rightarrow> RefT" where
  "destructure xs =
     \<lparr>ref = (case xs of [] \<Rightarrow> [] | x # _ \<Rightarrow> x),
      label = (case xs of _ # y # _ \<Rightarrow> y | _ \<Rightarrow> [])\<rparr>"

text \<open>
  The optional parameter \<^verbatim>\<open>preserveExtension?: boolean\<close> is a \<^typ>\<open>bool option\<close>;
  \<^verbatim>\<open>if (preserveExtension)\<close> holds for \<^verbatim>\<open>true\<close> only. The result \<open>None\<close> is \<^verbatim>\<open>null\<close>.
\<close>

definition extractLongRef :: "string \<Rightarrow> string \<Rightarrow> bool option \<Rightarrow> RefT option" where
  "extractLongRef basePathParam pathParam preserveExtension =
     (case rx_exec False allExtsRegex pathParam of
        None \<Rightarrow> None
      | Some allExtsMatch \<Rightarrow>
          (let ref = replace_all_rx True (Chr bslash) ''/''
                       (replace_str basePathParam [] pathParam)
           in if preserveExtension = Some True
              then Some (destructure (split_chr CHR ''|'' (trimLeadingSlash ref)))
              else (let refNoExts = trimLeadingSlash (replace_rx False allExtsRegex [] ref)
                    in Some (destructure (split_chr CHR ''|'' refNoExts)))))"

definition extractShortRef :: "string \<Rightarrow> bool option \<Rightarrow> RefT option" where
  "extractShortRef pathParam preserveExtension =
     (case rx_exec False allExtsRegex pathParam of
        None \<Rightarrow> None
      | Some allExtsMatch \<Rightarrow>
          (let ref = basename pathParam
           in if preserveExtension = Some True
              then Some (destructure (split_chr CHR ''|'' (trimLeadingSlash ref)))
              else (let refNoExts = trimLeadingSlash (replace_rx False allExtsRegex [] ref)
                    in Some (destructure (split_chr CHR ''|'' refNoExts)))))"

text \<open>
  Lines 36 to 46 and 63 to 73 are the same text in both functions: from the string \<open>t\<close>
  bound to \<^verbatim>\<open>ref\<close> they make the string that is handed to \<^verbatim>\<open>split('|')\<close>. \<open>refText\<close> names
  that string, so that the theorems below can speak about it.
\<close>

definition refText :: "bool option \<Rightarrow> string \<Rightarrow> string" where
  "refText preserveExtension t =
     (if preserveExtension = Some True then trimLeadingSlash t
      else trimLeadingSlash (replace_rx False allExtsRegex [] t))"

text \<open>
  The extensions the regular expressions list, as the specification names them: the
  recognized target extensions (markdown or image), and the image extensions.
\<close>

definition target_exts :: "string list" where
  "target_exts = [''.md'', ''.png'', ''.jpg'', ''.jpeg'', ''.svg'', ''.gif'']"

definition image_exts :: "string list" where
  "image_exts = [''.png'', ''.jpg'', ''.jpeg'', ''.svg'', ''.gif'']"

section \<open>The workspace cache and the reference locator (utils.ts, lines 84 to 194)\<close>

text \<open>
  Modelled from the spec: the type \<^verbatim>\<open>WorkspaceCache\<close> is declared in \<^verbatim>\<open>../types\<close>, which
  is not among the sources. Section 3 of the specification and lines 84 to 87 give it two
  lists of file URIs. A URI is represented by its \<^verbatim>\<open>fsPath\<close>, the only part of it that the
  code reads, and \<^verbatim>\<open>vscode.Uri.file(fsPath)\<close> by that same path. The cache is a module-level
  object in the source; here it is an argument of the function that reads it.
\<close>

record WorkspaceCache =
  imageUris :: "string list"
  markdownUris :: "string list"

text \<open>
  What \<^verbatim>\<open>findReferences\<close> can throw, so that its promise is rejected:
  \<^verbatim>\<open>fs.readFileSync\<close> on a path it cannot read, \<^verbatim>\<open>new RegExp\<close> on a source that is not a
  regular expression, \<^verbatim>\<open>openTextDocument\<close> on a file it cannot open, and \<^verbatim>\<open>$1.length\<close>
  when the first group of a match is \<^verbatim>\<open>undefined\<close>.
\<close>

datatype error = ReadError string | SyntaxError | OpenError string | TypeError

text \<open>
  Modelled from the spec: the type \<^verbatim>\<open>FoundRefT\<close> is declared in \<^verbatim>\<open>../types\<close>, which is not
  among the sources. Section 3 of the specification and lines 182 to 188 give it a
  location (a file and a range of positions, as the editor defines them) and the text
  \<^verbatim>\<open>matchText\<close>.
\<close>

record Position =
  line :: nat
  character :: nat

record Range =
  range_start :: Position
  range_end :: Position

record Location =
  uri :: string
  range :: Range

record FoundRefT =
  location :: Location
  matchText :: string

text \<open>
  A match array: its \<^verbatim>\<open>index\<close> and its elements (the match, then the groups; \<open>None\<close> is
  \<^verbatim>\<open>undefined\<close>). A regular expression object with the flag \<^verbatim>\<open>g\<close> is the function that
  \<^verbatim>\<open>exec\<close> computes from \<^verbatim>\<open>lastIndex\<close> and the text: \<open>None\<close> for \<^verbatim>\<open>null\<close>, or the match
  and the new \<^verbatim>\<open>lastIndex\<close>.
\<close>

record RegExpMatchArray =
  index :: nat
  elems :: "string option list"

type_synonym RegExp = "nat \<Rightarrow> string \<Rightarrow> (RegExpMatchArray \<times> nat) option"

text \<open>
  What the function takes from Node.js and from the editor: reading a file (\<open>None\<close> when
  the read throws), compiling a regular expression from its source and flags (\<open>None\<close> for
  a syntax error), opening a document (\<open>None\<close> when that fails), and the two position
  functions of a document, \<^verbatim>\<open>positionAt(offset)\<close> and \<^verbatim>\<open>lineAt(position).text\<close>.
\<close>

record 'doc host =
  readFileSync :: "string \<Rightarrow> string option"
  newRegExp :: "string \<Rightarrow> string \<Rightarrow> RegExp option"
  openTextDocument :: "string \<Rightarrow> 'doc option"
  positionAt :: "'doc \<Rightarrow> nat \<Rightarrow> Position"
  lineAt :: "'doc \<Rightarrow> Position \<Rightarrow> string"

text \<open>
  \<^verbatim>\<open>matchAll\<close> (lines 121 to 129) sets \<^verbatim>\<open>lastIndex\<close> to 0 and calls \<^verbatim>\<open>exec\<close> until it
  returns \<^verbatim>\<open>null\<close>. Nothing bounds the loop: an expression that matches the empty text
  never moves \<^verbatim>\<open>lastIndex\<close>, and then it does not return, which is the value \<open>None\<close>.
\<close>

partial_function (option) matchAll_loop ::
  "RegExp \<Rightarrow> string \<Rightarrow> nat \<Rightarrow> RegExpMatchArray list \<Rightarrow> RegExpMatchArray list option" where
  "matchAll_loop pattern text lastIndex out =
     (case pattern lastIndex text of
        None \<Rightarrow> Some out
      | Some (match, lastIndex') \<Rightarrow> matchAll_loop pattern text lastIndex' (out @ [match]))"

declare matchAll_loop.simps [code]

definition matchAll :: "RegExp \<Rightarrow> string \<Rightarrow> RegExpMatchArray list option" where
  "matchAll pattern text = matchAll_loop pattern text 0 []"

text \<open>
  The source text of the expression that line 166 builds around the reference: a
  backslash and a bracket, twice, an opening parenthesis, the reference as it is, the
  group for the label, and the closing brackets.
\<close>

definition refPatternSource :: "string \<Rightarrow> string" where
  "refPatternSource r =
     [bslash, CHR ''['', bslash, CHR ''['', CHR ''(''] @ r @
     [CHR ''('', bslash] @ ''|.*)?)'' @ [bslash, CHR '']'', bslash, CHR '']'']"

text \<open>
  The body of \<^verbatim>\<open>matches.forEach\<close> (lines 171 to 188) for one match. \<^verbatim>\<open>Math.max(c - 2, 0)\<close>
  is the subtraction of natural numbers, and \<^verbatim>\<open>text.slice(n, text.length)\<close> drops \<open>n\<close>
  characters.
\<close>

definition foundRef :: "'doc host \<Rightarrow> string \<Rightarrow> 'doc \<Rightarrow> RegExpMatchArray \<Rightarrow> error + FoundRefT" where
  "foundRef h fsPath currentDocument match =
     (let d1 = (case elems match of _ # g # _ \<Rightarrow> g | _ \<Rightarrow> None);
          offset = index match + 2;
          refStart = positionAt h currentDocument offset;
          lineStart = lineAt h currentDocument refStart;
          matchText = drop (character refStart - 2) lineStart
      in case d1 of
           None \<Rightarrow> Inl TypeError
         | Some g1 \<Rightarrow>
             (let refEnd = positionAt h currentDocument (offset + length g1)
              in Inr \<lparr>location = \<lparr>uri = fsPath,
                                    range = \<lparr>range_start = refStart, range_end = refEnd\<rparr>\<rparr>,
                      matchText = matchText\<rparr>))"

fun forEachMatch ::
  "'doc host \<Rightarrow> string \<Rightarrow> 'doc \<Rightarrow> RegExpMatchArray list \<Rightarrow> FoundRefT list
     \<Rightarrow> error + FoundRefT list" where
  "forEachMatch h fsPath currentDocument [] refs = Inr refs"
| "forEachMatch h fsPath currentDocument (match # matches) refs =
     (case foundRef h fsPath currentDocument match of
        Inl e \<Rightarrow> Inl e
      | Inr r \<Rightarrow> forEachMatch h fsPath currentDocument matches (refs @ [r]))"

text \<open>
  The loop of \<^verbatim>\<open>findReferences\<close> over the cached markdown files (lines 160 to 191), with
  the list \<^verbatim>\<open>refs\<close> it fills. The result is \<open>None\<close> when the call never returns,
  \<open>Some (Inl e)\<close> when it throws \<open>e\<close>, and \<open>Some (Inr refs)\<close> when it returns \<open>refs\<close>.
  The parameter \<^verbatim>\<open>excludePaths\<close> has the default \<^verbatim>\<open>[]\<close> in the source.
\<close>

fun findReferences_loop ::
  "'doc host \<Rightarrow> string \<Rightarrow> string list \<Rightarrow> string list \<Rightarrow> FoundRefT list
     \<Rightarrow> (error + FoundRefT list) option" where
  "findReferences_loop h r excludePaths [] refs = Some (Inr refs)"
| "findReferences_loop h r excludePaths (fsPath # uris) refs =
     (if fsPath \<in> set excludePaths then findReferences_loop h r excludePaths uris refs
      else case readFileSync h fsPath of
        None \<Rightarrow> Some (Inl (ReadError fsPath))
      | Some fileContent \<Rightarrow>
          (case newRegExp h (refPatternSource r) ''gi'' of
             None \<Rightarrow> Some (Inl SyntaxError)
           | Some pattern \<Rightarrow>
               (case matchAll pattern fileContent of
                  None \<Rightarrow> None
                | Some matches \<Rightarrow>
                    if matches \<noteq> [] then
                      (case openTextDocument h fsPath of
                         None \<Rightarrow> Some (Inl (OpenError fsPath))
                       | Some currentDocument \<Rightarrow>
                           (case forEachMatch h fsPath currentDocument matches refs of
                              Inl e \<Rightarrow> Some (Inl e)
                            | Inr refs' \<Rightarrow> findReferences_loop h r excludePaths uris refs'))
                    else findReferences_loop h r excludePaths uris refs)))"

definition findReferences ::
  "'doc host \<Rightarrow> WorkspaceCache \<Rightarrow> string \<Rightarrow> string list \<Rightarrow> (error + FoundRefT list) option" where
  "findReferences h workspaceCache r excludePaths =
     findReferences_loop h r excludePaths (markdownUris workspaceCache) []"

section \<open>A host to run the locator on a workspace of notes\<close>

text \<open>
  The theorems about \<^verbatim>\<open>findReferences\<close> hold for every host. To run the function, this
  section gives one: files are an association list from paths to contents, a document is
  the content of its file with lines ending at a line feed, and the expression engine
  knows the expressions that \<open>refPatternSource\<close> builds from a reference without
  metacharacters (for any other source it reports a syntax error). For such a
  reference the expression is \<open>refRx\<close>, the first group is the match without its four
  brackets, and the second group is the label with its bar.
\<close>

definition refRx :: "string \<Rightarrow> rx" where
  "refRx r = Seq (lit ''[['') (Seq (lit r)
               (Seq (Opt (Seq (Chr CHR ''|'') (Star Dot))) (lit '']]'')))"

definition refRegExp :: "string \<Rightarrow> RegExp" where
  "refRegExp r lastIndex text =
     (if length text < lastIndex then None
      else case rx_search True (refRx r) (lastIndex = 0) (drop lastIndex text) of
        None \<Rightarrow> None
      | Some (n, t) \<Rightarrow>
          (let i = lastIndex + n;
               m = take (length text - i - length t) (drop i text);
               g1 = take (length m - 4) (drop 2 m);
               g2 = drop (length r) g1
           in Some (\<lparr>index = i, elems = [Some m, Some g1, if g2 = [] then None else Some g2]\<rparr>,
                    i + length m)))"

definition metachars :: string where
  "metachars = bslash # ''^$.|?*+()[]{}''"

definition literalEngine :: "string \<Rightarrow> string \<Rightarrow> RegExp option" where
  "literalEngine source flags =
     (let r = take (length source - 17) (drop 5 source)
      in if flags = ''gi'' \<and> source = refPatternSource r \<and> list_all (\<lambda>c. c \<notin> set metachars) r
         then Some (refRegExp r) else None)"

fun positionFrom :: "nat \<Rightarrow> nat \<Rightarrow> nat \<Rightarrow> string \<Rightarrow> Position" where
  "positionFrom l c 0 text = \<lparr>line = l, character = c\<rparr>"
| "positionFrom l c (Suc n) [] = \<lparr>line = l, character = c\<rparr>"
| "positionFrom l c (Suc n) (x # xs) =
     (if x = CHR 0x0A then positionFrom (Suc l) 0 n xs else positionFrom l (Suc c) n xs)"

definition fixtureHost :: "(string \<times> string) list \<Rightarrow> string host" where
  "fixtureHost files =
     \<lparr>readFileSync = map_of files,
      newRegExp = literalEngine,
      openTextDocument = map_of files,
      positionAt = (\<lambda>doc offset. positionFrom 0 0 offset doc),
      lineAt = (\<lambda>doc pos. let ls = split_chr (CHR 0x0A) doc
                           in if line pos < length ls then ls ! line pos else [])\<rparr>"

text \<open>
  The workspace of the specification's example: \<^verbatim>\<open>a.md\<close> links to \<^verbatim>\<open>target\<close> twice,
  \<^verbatim>\<open>b.md\<close> has no link. In \<open>notesHostDeleted\<close> the file \<^verbatim>\<open>b.md\<close> is still in the cache
  but no longer on disk.
\<close>

definition notesCache :: WorkspaceCache where
  "notesCache = \<lparr>imageUris = [], markdownUris = [''/ws/a.md'', ''/ws/b.md'']\<rparr>"

definition notesHost :: "string host" where
  "notesHost = fixtureHost
     [(''/ws/a.md'', ''See [[target]] and [[target|Alt]] here.''),
      (''/ws/b.md'', ''No links here.'')]"

definition notesHostDeleted :: "string host" where
  "notesHostDeleted = fixtureHost [(''/ws/a.md'', ''See [[target]] and [[target|Alt]] here.'')]"

section \<open>Properties of the matcher on the expressions of the file\<close>

subsection \<open>The extension expressions\<close>

lemma rx_match_lit:
  "rx_match False (lit w) b s k =
     (if prefix w s then k (b \<and> w = []) (drop (length w) s) else None)"
proof (induction w arbitrary: b s k rule: lit.induct)
  case 1
  then show ?case by simp
next
  case (2 c)
  then show ?case by (cases s) (auto simp: chr_eq_def)
next
  case (3 c v va)
  then show ?case by (cases s) (auto simp: chr_eq_def)
qed

lemma allExts_here:
  "(rx_match False allExtsRegex b s (\<lambda>_. Some) \<noteq> None) = (\<exists>e\<in>set target_exts. prefix e s)"
  unfolding allExtsRegex_def target_exts_def
  by (cases s) (auto simp: rx_match_lit chr_eq_def simp del: lit.simps split: option.splits)

lemma imageExts_here:
  "(rx_match False imageExtsRegex b s (\<lambda>_. Some) \<noteq> None) = (\<exists>e\<in>set image_exts. prefix e s)"
  unfolding imageExtsRegex_def image_exts_def
  by (cases s) (auto simp: rx_match_lit chr_eq_def simp del: lit.simps split: option.splits)

lemma rx_search_iff:
  assumes "\<And>b s. (rx_match ic r b s (\<lambda>_. Some) \<noteq> None) = (\<exists>e\<in>set es. prefix e s)"
  shows "(rx_search ic r b s \<noteq> None) = (\<exists>e\<in>set es. sublist e s)"
proof (induction s arbitrary: b)
  case Nil
  then show ?case using assms [of b "[]"] by auto
next
  case (Cons c cs)
  show ?case
  proof (cases "rx_match ic r b (c # cs) (\<lambda>_. Some)")
    case None
    then have "\<not> (\<exists>e\<in>set es. prefix e (c # cs))" using assms [of b "c # cs"] by simp
    then show ?thesis using None Cons [of False]
      by (auto simp: sublist_Cons_right)
  next
    case (Some t)
    then have "\<exists>e\<in>set es. prefix e (c # cs)" using assms [of b "c # cs"] by simp
    then show ?thesis using Some by (auto simp: sublist_Cons_right)
  qed
qed

lemma allExts_exec: "(rx_exec False allExtsRegex s \<noteq> None) = (\<exists>e\<in>set target_exts. sublist e s)"
  unfolding rx_exec_def by (rule rx_search_iff) (rule allExts_here)

lemma containsImageExt_iff: "containsImageExt s = (\<exists>e\<in>set image_exts. sublist e s)"
  unfolding rx_exec_def containsImageExt_def by (rule rx_search_iff) (rule imageExts_here)

subsection \<open>Global replacement and runs of one character\<close>

lemma replace_from_None:
  "rx_match ic r b s (\<lambda>_. Some) = None \<Longrightarrow>
   replace_from ic r repl b s = (case s of [] \<Rightarrow> [] | c # cs \<Rightarrow> c # replace_from ic r repl False cs)"
  by (subst replace_from.simps) simp

lemma replace_from_Some:
  "rx_match ic r b s (\<lambda>_. Some) = Some t \<Longrightarrow> length t < length s \<Longrightarrow>
   replace_from ic r repl b s = repl @ replace_from ic r repl False t"
  by (subst replace_from.simps) simp

lemma star_chr_unfold:
  "rx_match False (Star (Chr c)) b s k =
     (case s of [] \<Rightarrow> k b s
      | x # xs \<Rightarrow> if x = c then (case rx_match False (Star (Chr c)) False xs k of
                                   Some y \<Rightarrow> Some y | None \<Rightarrow> k b s)
                 else k b s)"
  by (subst rx_match.simps(9)) (simp add: chr_eq_def split: list.splits)

lemma star_chr_some:
  "rx_match False (Star (Chr c)) b s (\<lambda>_. Some) = Some (dropWhile (\<lambda>x. x = c) s)"
  by (induction s arbitrary: b) (simp_all add: star_chr_unfold [where s = "[]"] star_chr_unfold [where s = "_ # _"])

lemma star_chr_eol:
  "rx_match False (Star (Chr c)) b s (\<lambda>b' s'. rx_match False Eol b' s' (\<lambda>_. Some)) =
     (if \<forall>x\<in>set s. x = c then Some [] else None)"
  by (induction s arbitrary: b) (simp_all add: star_chr_unfold [where s = "[]"] star_chr_unfold [where s = "_ # _"])

lemma plus_chr_some:
  "rx_match False (Plus (Chr c)) b s (\<lambda>_. Some) =
     (case s of [] \<Rightarrow> None | x # xs \<Rightarrow> if x = c then Some (dropWhile (\<lambda>x. x = c) xs) else None)"
  by (simp add: Plus_def chr_eq_def star_chr_some split: list.splits)

lemma plus_chr_eol:
  "rx_match False (Plus (Chr c)) b s (\<lambda>b' s'. rx_match False Eol b' s' (\<lambda>_. Some)) =
     (if s \<noteq> [] \<and> (\<forall>x\<in>set s. x = c) then Some [] else None)"
  unfolding Plus_def rx_match.simps(6) rx_match.simps(2) 
  by (cases s) (simp_all only: star_chr_eol chr_eq_def list.case if_False set_simps ball_simps split: if_splits, auto)

subsection \<open>The two slash expressions\<close>

lemma leading_match:
  "rx_match False leadingSlashRegex b s (\<lambda>_. Some) =
     (if b \<and> s \<noteq> [] \<and> hd s = CHR ''/'' then Some (dropWhile (\<lambda>x. x = CHR ''/'') s)
      else if b \<and> s \<noteq> [] \<and> hd s = bslash then Some (dropWhile (\<lambda>x. x = bslash) s)
      else None)"
  by (cases s) (simp_all add: leadingSlashRegex_def plus_chr_some)

lemma trailing_match:
  "rx_match False trailingSlashRegex b s (\<lambda>_. Some) =
     (if s \<noteq> [] \<and> hd s = CHR ''/'' then Some (dropWhile (\<lambda>x. x = CHR ''/'') s)
      else if b \<and> s \<noteq> [] \<and> (\<forall>x\<in>set s. x = bslash) then Some []
      else None)"
proof -
  have "rx_match False (Seq Bol (Seq (Plus (Chr bslash)) Eol)) b s (\<lambda>_. Some) =
        (if b \<and> s \<noteq> [] \<and> (\<forall>x\<in>set s. x = bslash) then Some [] else None)"
    unfolding rx_match.simps(6) rx_match.simps(4) by (simp only: plus_chr_eol) simp
  then show ?thesis
    unfolding trailingSlashRegex_def rx_match.simps(7)
    by (cases s) (auto simp: plus_chr_some)
qed

lemma replace_leading_False: "replace_from False leadingSlashRegex [] False s = s"
  by (induction s) (simp_all add: replace_from_None leading_match)

lemma length_dropWhile_Cons: "length (dropWhile P cs) < Suc (length cs)"
  by (simp add: le_imp_less_Suc length_dropWhile_le)

lemma trimLeadingSlash_eq:
  "trimLeadingSlash s =
     (if s \<noteq> [] \<and> hd s = CHR ''/'' then dropWhile (\<lambda>x. x = CHR ''/'') s
      else if s \<noteq> [] \<and> hd s = bslash then dropWhile (\<lambda>x. x = bslash) s
      else s)"
proof -
  have eq: "trimLeadingSlash s = replace_from False leadingSlashRegex [] True s"
    by (simp add: trimLeadingSlash_def replace_all_rx_def)
  show ?thesis
  proof (cases s)
    case Nil
    then show ?thesis unfolding eq by (simp add: replace_from_None leading_match)
  next
    case (Cons c cs)
    consider "c = CHR ''/''" | "c \<noteq> CHR ''/''" "c = bslash" | "c \<noteq> CHR ''/''" "c \<noteq> bslash"
      by blast
    then show ?thesis
    proof cases
      case 1
      have "rx_match False leadingSlashRegex True s (\<lambda>_. Some) = Some (dropWhile (\<lambda>x. x = CHR ''/'') cs)"
        using Cons 1 by (simp add: leading_match)
      from replace_from_Some [OF this, of "[]"] show ?thesis
        unfolding eq using Cons 1 by (simp add: length_dropWhile_Cons replace_leading_False)
    next
      case 2
      have "rx_match False leadingSlashRegex True s (\<lambda>_. Some) = Some (dropWhile (\<lambda>x. x = bslash) cs)"
        using Cons 2 by (simp add: leading_match)
      from replace_from_Some [OF this, of "[]"] show ?thesis
        unfolding eq using Cons 2 by (simp add: length_dropWhile_Cons replace_leading_False)
    next
      case 3
      have "rx_match False leadingSlashRegex True s (\<lambda>_. Some) = None"
        using Cons 3 by (simp add: leading_match)
      from replace_from_None [OF this, of "[]"] show ?thesis
        unfolding eq using Cons 3 by (simp add: replace_leading_False)
    qed
  qed
qed

lemma filter_dropWhile_slash:
  "filter (\<lambda>x. x \<noteq> c) (dropWhile (\<lambda>x. x = c) s) = filter (\<lambda>x. x \<noteq> c) s"
  by (induction s) auto

lemma replace_trailing_False:
  "replace_from False trailingSlashRegex [] False s = filter (\<lambda>x. x \<noteq> CHR ''/'') s"
proof (induction s rule: length_induct)
  case (1 s)
  show ?case
  proof (cases s)
    case Nil
    then show ?thesis by (simp add: replace_from_None trailing_match)
  next
    case (Cons c cs)
    show ?thesis
    proof (cases "c = CHR ''/''")
      case True
      let ?t = "dropWhile (\<lambda>x. x = CHR ''/'') cs"
      have m: "rx_match False trailingSlashRegex False s (\<lambda>_. Some) = Some ?t"
        using Cons True by (simp add: trailing_match)
      have lt: "length ?t < length s" using Cons by (simp add: length_dropWhile_Cons)
      have "replace_from False trailingSlashRegex [] False s = replace_from False trailingSlashRegex [] False ?t"
        using replace_from_Some [OF m lt, of "[]"] by simp
      also have "\<dots> = filter (\<lambda>x. x \<noteq> CHR ''/'') ?t" using 1 lt by blast
      finally show ?thesis using Cons True by (simp add: filter_dropWhile_slash)
    next
      case False
      have m: "rx_match False trailingSlashRegex False s (\<lambda>_. Some) = None"
        using Cons False by (simp add: trailing_match)
      have "replace_from False trailingSlashRegex [] False cs = filter (\<lambda>x. x \<noteq> CHR ''/'') cs"
        using 1 Cons by simp
      then show ?thesis using replace_from_None [OF m, of "[]"] Cons False by simp
    qed
  qed
qed

lemma trimTrailingSlash_eq:
  "trimTrailingSlash s =
     (if s \<noteq> [] \<and> (\<forall>x\<in>set s. x = bslash) then [] else filter (\<lambda>x. x \<noteq> CHR ''/'') s)"
proof -
  have eq: "trimTrailingSlash s = replace_from False trailingSlashRegex [] True s"
    by (simp add: trimTrailingSlash_def replace_all_rx_def)
  show ?thesis
  proof (cases s)
    case Nil
    then show ?thesis unfolding eq by (simp add: replace_from_None trailing_match)
  next
    case (Cons c cs)
    consider "c = CHR ''/''" | "c \<noteq> CHR ''/''" "\<forall>x\<in>set s. x = bslash"
      | "c \<noteq> CHR ''/''" "\<not> (\<forall>x\<in>set s. x = bslash)"
      by blast
    then show ?thesis
    proof cases
      case 1
      let ?t = "dropWhile (\<lambda>x. x = CHR ''/'') cs"
      have m: "rx_match False trailingSlashRegex True s (\<lambda>_. Some) = Some ?t"
        using Cons 1 by (simp add: trailing_match)
      have lt: "length ?t < length s" using Cons by (simp add: length_dropWhile_Cons)
      show ?thesis unfolding eq using replace_from_Some [OF m lt, of "[]"] Cons 1
        by (simp add: replace_trailing_False filter_dropWhile_slash)
    next
      case 2
      have m: "rx_match False trailingSlashRegex True s (\<lambda>_. Some) = Some []"
        using Cons 2 by (simp add: trailing_match)
      have lt: "length ([]::string) < length s" using Cons by simp
      show ?thesis unfolding eq using replace_from_Some [OF m lt, of "[]"] Cons 2
        by (simp add: replace_trailing_False)
    next
      case 3
      have m: "rx_match False trailingSlashRegex True s (\<lambda>_. Some) = None"
        using Cons 3 by (simp add: trailing_match)
      show ?thesis unfolding eq using replace_from_None [OF m, of "[]"] Cons 3
        by (simp add: replace_trailing_False)
    qed
  qed
qed

lemma trimLeadingSlash_no_slash:
  "CHR ''/'' \<notin> set t \<Longrightarrow> trimLeadingSlash t = dropWhile (\<lambda>x. x = bslash) t"
  by (cases t) (auto simp: trimLeadingSlash_eq)

lemma trimSlashes_eq:
  "trimSlashes s = dropWhile (\<lambda>x. x = bslash) (filter (\<lambda>x. x \<noteq> CHR ''/'') s)"
proof (cases "s \<noteq> [] \<and> (\<forall>x\<in>set s. x = bslash)")
  case True
  then have "filter (\<lambda>x. x \<noteq> CHR ''/'') s = s" by (auto simp: filter_id_conv)
  moreover have "dropWhile (\<lambda>x. x = bslash) s = []" using True by auto
  moreover have "trimTrailingSlash s = []"
    using True by (simp add: trimTrailingSlash_eq)
  ultimately show ?thesis
    by (simp add: trimSlashes_def trimLeadingSlash_eq del: dropWhile_eq_Nil_conv)
next
  case False
  let ?f = "filter (\<lambda>x. x \<noteq> CHR ''/'') s"
  have "trimTrailingSlash s = ?f"
    using False by (auto simp add: trimTrailingSlash_eq)
  then show ?thesis
    by (simp add: trimSlashes_def trimLeadingSlash_no_slash)
qed

subsection \<open>Splitting and the first occurrence of a pattern\<close>

lemma split_chr_not_Nil: "split_chr c s \<noteq> []"
  by (induction s) (auto split: list.splits)

lemma hd_split_chr: "hd (split_chr c s) = takeWhile (\<lambda>x. x \<noteq> c) s"
  by (induction s) (auto split: list.splits simp: split_chr_not_Nil)

lemma tl_split_chr:
  "tl (split_chr c s) =
     (if c \<in> set s then split_chr c (drop 1 (dropWhile (\<lambda>x. x \<noteq> c) s)) else [])"
  by (induction s) (auto split: list.splits simp: split_chr_not_Nil)

lemma destructure_hd_tl:
  "xs \<noteq> [] \<Longrightarrow> destructure xs = \<lparr>ref = hd xs, label = (case tl xs of [] \<Rightarrow> [] | y # _ \<Rightarrow> y)\<rparr>"
  by (cases xs) (auto simp: destructure_def split: list.splits)

lemma destructure_split_chr:
  "destructure (split_chr c p) =
     \<lparr>ref = takeWhile (\<lambda>x. x \<noteq> c) p,
      label = takeWhile (\<lambda>x. x \<noteq> c) (drop 1 (dropWhile (\<lambda>x. x \<noteq> c) p))\<rparr>"
proof (cases "c \<in> set p")
  case True
  let ?q = "drop 1 (dropWhile (\<lambda>x. x \<noteq> c) p)"
  have "(case split_chr c ?q of [] \<Rightarrow> [] | y # _ \<Rightarrow> y) = hd (split_chr c ?q)"
    using split_chr_not_Nil [of c ?q] by (cases "split_chr c ?q") auto
  then show ?thesis using True
    by (simp add: destructure_hd_tl split_chr_not_Nil hd_split_chr tl_split_chr)
next
  case False
  then have "dropWhile (\<lambda>x. x \<noteq> c) p = []" by auto
  then show ?thesis using False
    by (simp add: destructure_hd_tl split_chr_not_Nil hd_split_chr tl_split_chr
          del: dropWhile_eq_Nil_conv)
qed

lemma replace_str_prefix: "replace_str pat repl (pat @ v) = repl @ v"
proof (cases "pat @ v")
  case Nil
  then show ?thesis by simp
next
  case (Cons a list)
  have p: "prefix pat (a # list)" using Cons by (metis prefixI)
  have d: "drop (length pat) (a # list) = v" using Cons by (metis append_eq_conv_conj)
  show ?thesis unfolding Cons using p d by simp
qed

lemma replace_str_first:
  "\<forall>j<length u. \<not> prefix pat (drop j (u @ pat @ v)) \<Longrightarrow>
   replace_str pat repl (u @ pat @ v) = u @ repl @ v"
proof (induction u)
  case Nil
  then show ?case by (simp add: replace_str_prefix)
next
  case (Cons a u)
  have "\<not> prefix pat ((a # u) @ pat @ v)" using Cons.prems by fastforce
  moreover have "\<forall>j<length u. \<not> prefix pat (drop j (u @ pat @ v))"
  proof (intro allI impI)
    fix j assume "j < length u"
    then have "\<not> prefix pat (drop (Suc j) ((a # u) @ pat @ v))" using Cons.prems by fastforce
    then show "\<not> prefix pat (drop j (u @ pat @ v))" by simp
  qed
  ultimately show ?case using Cons.IH by simp
qed

lemma extractLongRef_eq:
  "extractLongRef base raw pe =
     (if \<exists>e\<in>set target_exts. sublist e raw
      then Some (destructure (split_chr CHR ''|''
             (refText pe (replace_all_rx True (Chr bslash) ''/'' (replace_str base [] raw)))))
      else None)"
  using allExts_exec [of raw]
  by (cases "rx_exec False allExtsRegex raw") (simp_all add: extractLongRef_def refText_def Let_def)

lemma extractShortRef_eq:
  "extractShortRef raw pe =
     (if \<exists>e\<in>set target_exts. sublist e raw
      then Some (destructure (split_chr CHR ''|'' (refText pe (basename raw))))
      else None)"
  using allExts_exec [of raw]
  by (cases "rx_exec False allExtsRegex raw") (simp_all add: extractShortRef_def refText_def Let_def)

subsection \<open>The scan over the cached files\<close>

lemma matchAll_no_match: "pattern 0 text = None \<Longrightarrow> matchAll pattern text = Some []"
  unfolding matchAll_def by (subst matchAll_loop.simps) simp

lemma foundRef_uri: "foundRef h fsPath d m = Inr r \<Longrightarrow> uri (location r) = fsPath"
  by (auto simp: foundRef_def Let_def split: option.splits)

lemma forEachMatch_uri:
  "forEachMatch h fsPath d ms refs = Inr out \<Longrightarrow>
   \<forall>r\<in>set out. r \<in> set refs \<or> uri (location r) = fsPath"
proof (induction ms arbitrary: refs)
  case Nil
  then show ?case by simp
next
  case (Cons m ms)
  then show ?case
    by (fastforce split: sum.splits dest: foundRef_uri)
qed

lemma findReferences_loop_uri:
  "findReferences_loop h r ex uris refs = Some (Inr out) \<Longrightarrow>
   \<forall>x\<in>set out. x \<in> set refs \<or> (uri (location x) \<in> set uris \<and> uri (location x) \<notin> set ex)"
proof (induction uris arbitrary: refs)
  case Nil
  then show ?case by simp
next
  case (Cons p uris)
  show ?case
  proof (cases "p \<in> set ex")
    case True
    then show ?thesis using Cons by fastforce
  next
    case False
    from Cons.prems False obtain content pattern matches where
      rd: "readFileSync h p = Some content" and
      re: "newRegExp h (refPatternSource r) ''gi'' = Some pattern" and
      ma: "matchAll pattern content = Some matches"
      by (auto split: option.splits)
    show ?thesis
    proof (cases "matches = []")
      case True
      then have "findReferences_loop h r ex uris refs = Some (Inr out)"
        using Cons.prems False rd re ma by simp
      from Cons.IH [OF this] show ?thesis by auto
    next
      case nonempty: False
      from Cons.prems False rd re ma nonempty obtain d refs' where
        fe: "forEachMatch h p d matches refs = Inr refs'" and
        rest: "findReferences_loop h r ex uris refs' = Some (Inr out)"
        by (auto split: option.splits sum.splits)
      from forEachMatch_uri [OF fe] Cons.IH [OF rest] False show ?thesis by fastforce
    qed
  qed
qed

lemma findReferences_loop_no_match:
  "\<forall>p\<in>set uris. p \<notin> set ex \<longrightarrow>
     (\<exists>content pattern. readFileSync h p = Some content
        \<and> newRegExp h (refPatternSource r) ''gi'' = Some pattern
        \<and> pattern 0 content = None) \<Longrightarrow>
   findReferences_loop h r ex uris refs = Some (Inr refs)"
  by (induction uris) (auto simp: matchAll_no_match)

lemma findReferences_loop_unreadable:
  "p \<in> set uris \<Longrightarrow> p \<notin> set ex \<Longrightarrow> readFileSync h p = None \<Longrightarrow>
   findReferences_loop h r ex uris refs \<noteq> Some (Inr out)"
proof (induction uris arbitrary: refs)
  case Nil
  then show ?case by simp
next
  case (Cons q uris)
  show ?case
  proof (cases "q = p")
    case True
    then show ?thesis using Cons.prems by simp
  next
    case False
    then have "p \<in> set uris" using Cons.prems by simp
    from Cons.IH [OF this Cons.prems(2,3)] show ?thesis
      by (auto split: option.splits sum.splits)
  qed
qed

lemma findReferences_loop_first_unreadable:
  "set pre \<subseteq> set ex \<Longrightarrow> p \<notin> set ex \<Longrightarrow> readFileSync h p = None \<Longrightarrow>
   findReferences_loop h r ex (pre @ p # post) refs = Some (Inl (ReadError p))"
  by (induction pre) simp_all

lemma findReferences_loop_append:
  "findReferences_loop h r ex (xs @ ys) refs =
     (case findReferences_loop h r ex xs refs of
        Some (Inr refs') \<Rightarrow> findReferences_loop h r ex ys refs'
      | Some (Inl e) \<Rightarrow> Some (Inl e)
      | None \<Rightarrow> None)"
  by (induction xs arbitrary: refs) (auto split: option.splits sum.splits)

lemma findReferences_loop_after_prefix:
  assumes "p \<notin> set ex" and "readFileSync h p = None"
  shows "findReferences_loop h r ex (pre @ p # post) refs =
     (case findReferences_loop h r ex pre refs of
        Some (Inr refs') \<Rightarrow> Some (Inl (ReadError p))
      | Some (Inl e) \<Rightarrow> Some (Inl e)
      | None \<Rightarrow> None)"
  using assms by (simp add: findReferences_loop_append split: option.splits sum.splits)

lemma foundRef_readFileSync: "foundRef (h\<lparr>readFileSync := rd\<rparr>) = foundRef h"
  by (intro ext) (simp add: foundRef_def Let_def split: option.splits list.splits)

lemma forEachMatch_readFileSync:
  "forEachMatch (h\<lparr>readFileSync := rd\<rparr>) p d ms refs = forEachMatch h p d ms refs"
  by (induction ms arbitrary: refs) (simp_all add: foundRef_readFileSync split: sum.splits)

lemma findReferences_loop_excluded_not_read:
  "\<forall>p. p \<notin> set ex \<longrightarrow> rd p = readFileSync h p \<Longrightarrow>
   findReferences_loop (h\<lparr>readFileSync := rd\<rparr>) r ex uris refs
     = findReferences_loop h r ex uris refs"
  by (induction uris arbitrary: refs)
     (auto simp: forEachMatch_readFileSync split: option.splits sum.splits)

lemma notesHost_newRegExp:
  "newRegExp notesHost (refPatternSource ''target'') ''gi'' = Some (refRegExp ''target'')"
  by (simp add: notesHost_def fixtureHost_def literalEngine_def refPatternSource_def metachars_def)

section \<open>The claims about the path utilities\<close>

text \<open>
  C2: \<^verbatim>\<open>trimSlashes\<close> is said to strip leading and trailing separators only, so that
  \<^verbatim>\<open>trimSlashes('/foo/bar/')\<close> is \<^verbatim>\<open>foo/bar\<close>. The expression of \<^verbatim>\<open>trimTrailingSlash\<close> has
  no \<^verbatim>\<open>$\<close> on its first alternative, so every slash of the input goes (lemma
  \<open>trimTrailingSlash_eq\<close>): the code returns \<^verbatim>\<open>foobar\<close>.
\<close>

theorem trimSlashes_foo_bar: "trimSlashes ''/foo/bar/'' = ''foobar''"
  by code_simp

text \<open>
  C9: \<^verbatim>\<open>trimSlashes\<close> is idempotent: applying it twice gives what applying it once gives,
  for every string.
\<close>

theorem trimSlashes_idempotent: "trimSlashes (trimSlashes x) = trimSlashes x"
proof -
  let ?r = "dropWhile (\<lambda>x. x = bslash) (filter (\<lambda>x. x \<noteq> CHR ''/'') x)"
  have "filter (\<lambda>x. x \<noteq> CHR ''/'') ?r = ?r"
    by (rule filter_True) (auto dest: set_dropWhileD)
  moreover have "dropWhile (\<lambda>x. x = bslash) ?r = ?r"
    by (simp add: dropWhile_idem)
  ultimately show ?thesis by (simp add: trimSlashes_eq)
qed

theorem trimSlashes_idempotent_witness:
  "trimSlashes (trimSlashes ''/foo/bar/'') = trimSlashes ''/foo/bar/''"
  by (rule trimSlashes_idempotent)

text \<open>
  C3: \<^verbatim>\<open>containsImageExt(path)\<close> is said to hold exactly when the path ends with one of
  the image extensions. The expression \<^verbatim>\<open>imageExtsRegex\<close> has no \<^verbatim>\<open>$\<close> at its end, so the
  code accepts every path in which an image extension occurs somewhere (lemma
  \<open>containsImageExt_iff\<close>): \<^verbatim>\<open>a.png.txt\<close>, which ends with none of them, is accepted. The
  sibling \<^verbatim>\<open>containsMarkdownExt\<close>, whose expression is anchored, rejects \<^verbatim>\<open>a.md.txt\<close>.
\<close>

theorem containsImageExt_a_png_txt:
  "containsImageExt ''a.png.txt'' \<and> \<not> (\<exists>e\<in>set image_exts. suffix e ''a.png.txt'')
   \<and> \<not> containsMarkdownExt ''a.md.txt'' \<and> containsMarkdownExt ''a.md''"
  by code_simp

section \<open>The claims about the reference token parser\<close>

text \<open>
  C5: a string that contains none of the recognized target extensions makes
  \<^verbatim>\<open>extractLongRef\<close> and \<^verbatim>\<open>extractShortRef\<close> return \<^verbatim>\<open>null\<close>, whatever the base path
  and the flag, and this is the only way to get \<^verbatim>\<open>null\<close>: every other string gives a
  reference. Both functions are total: no input makes them raise.
\<close>

theorem extractRef_null_iff:
  "(extractLongRef base s pe = None) = (\<not> (\<exists>e\<in>set target_exts. sublist e s))
   \<and> (extractShortRef s pe = None) = (\<not> (\<exists>e\<in>set target_exts. sublist e s))"
  by (simp add: extractLongRef_eq extractShortRef_eq)

theorem extractRef_null_iff_witness:
  "extractLongRef ''/notes/'' ''/notes/todo.txt'' None = None
   \<and> extractShortRef ''/notes/todo.txt'' None = None
   \<and> extractLongRef ''/notes/'' ''/notes/todo.md'' None \<noteq> None
   \<and> extractShortRef ''/notes/todo.md'' None \<noteq> None"
proof -
  have "\<not> (\<exists>e\<in>set target_exts. sublist e ''/notes/todo.txt'')" by code_simp
  moreover have "\<exists>e\<in>set target_exts. sublist e ''/notes/todo.md''" by code_simp
  ultimately show ?thesis
    using extractRef_null_iff [of "''/notes/''" "''/notes/todo.txt''" None]
      extractRef_null_iff [of "''/notes/''" "''/notes/todo.md''" None] by blast
qed

text \<open>
  C4, as the specification has it: the label is everything after the first \<^verbatim>\<open>|\<close>, so a
  label that contains \<^verbatim>\<open>|\<close> is kept whole. The code takes the first two elements of
  \<^verbatim>\<open>split('|')\<close>: for \<^verbatim>\<open>a.md|x|y\<close> the label is \<^verbatim>\<open>x\<close>, not \<^verbatim>\<open>x|y\<close>.
\<close>

theorem extractRef_label_counterexample:
  "extractShortRef ''a.md|x|y'' None = Some \<lparr>ref = ''a'', label = ''x''\<rparr>
   \<and> extractLongRef [] ''a.md|x|y'' None = Some \<lparr>ref = ''a'', label = ''x''\<rparr>
   \<and> extractShortRef ''a.md|x|y'' None \<noteq> Some \<lparr>ref = ''a'', label = ''x|y''\<rparr>
   \<and> extractLongRef [] ''a.md|x|y'' None \<noteq> Some \<lparr>ref = ''a'', label = ''x|y''\<rparr>"
  by code_simp

text \<open>
  C4, amended: for every recognized input, the reference is everything before the first
  \<^verbatim>\<open>|\<close> of the processed string, and the label is the text between the first \<^verbatim>\<open>|\<close> and the
  second one (everything after the first \<^verbatim>\<open>|\<close> when there is no second one); the label is
  empty when the processed string has no \<^verbatim>\<open>|\<close>.
\<close>

theorem extractRef_split:
  assumes "\<exists>e\<in>set target_exts. sublist e raw"
  shows "extractLongRef base raw pe =
           (let p = refText pe (replace_all_rx True (Chr bslash) ''/'' (replace_str base [] raw))
            in Some \<lparr>ref = takeWhile (\<lambda>c. c \<noteq> CHR ''|'') p,
                     label = takeWhile (\<lambda>c. c \<noteq> CHR ''|'')
                               (drop 1 (dropWhile (\<lambda>c. c \<noteq> CHR ''|'') p))\<rparr>)
         \<and> extractShortRef raw pe =
           (let p = refText pe (basename raw)
            in Some \<lparr>ref = takeWhile (\<lambda>c. c \<noteq> CHR ''|'') p,
                     label = takeWhile (\<lambda>c. c \<noteq> CHR ''|'')
                               (drop 1 (dropWhile (\<lambda>c. c \<noteq> CHR ''|'') p))\<rparr>)"
  using assms by (simp add: extractLongRef_eq extractShortRef_eq destructure_split_chr Let_def)

theorem extractRef_split_witness:
  "extractLongRef ''/notes/'' ''/notes/a/b.md|one|two'' None
     = Some \<lparr>ref = ''a/b'', label = ''one''\<rparr>
   \<and> extractShortRef ''/notes/a/b.md|one|two'' None = Some \<lparr>ref = ''b'', label = ''one''\<rparr>"
proof -
  have r: "\<exists>e\<in>set target_exts. sublist e ''/notes/a/b.md|one|two''" by code_simp
  have l: "(let p = refText None (replace_all_rx True (Chr bslash) ''/''
                      (replace_str ''/notes/'' [] ''/notes/a/b.md|one|two''))
            in Some \<lparr>ref = takeWhile (\<lambda>c. c \<noteq> CHR ''|'') p,
                     label = takeWhile (\<lambda>c. c \<noteq> CHR ''|'')
                               (drop 1 (dropWhile (\<lambda>c. c \<noteq> CHR ''|'') p))\<rparr>)
           = Some \<lparr>ref = ''a/b'', label = ''one''\<rparr>"
    by code_simp
  have s: "(let p = refText None (basename ''/notes/a/b.md|one|two'')
            in Some \<lparr>ref = takeWhile (\<lambda>c. c \<noteq> CHR ''|'') p,
                     label = takeWhile (\<lambda>c. c \<noteq> CHR ''|'')
                               (drop 1 (dropWhile (\<lambda>c. c \<noteq> CHR ''|'') p))\<rparr>)
           = Some \<lparr>ref = ''b'', label = ''one''\<rparr>"
    by code_simp
  show ?thesis
    using extractRef_split [OF r, of "''/notes/''" None] by (simp only: l s)
qed

text \<open>
  C7: \<^verbatim>\<open>extractShortRef('/notes/a/b.md|My Note')\<close> returns the reference \<^verbatim>\<open>b\<close> with the
  label \<^verbatim>\<open>My Note\<close>. The reference is the base name without its extension, whatever the
  directory in front of it, and the text after \<^verbatim>\<open>|\<close> is the label.
\<close>

theorem extractShortRef_example:
  "extractShortRef ''/notes/a/b.md|My Note'' None = Some \<lparr>ref = ''b'', label = ''My Note''\<rparr>
   \<and> (\<forall>dir. extractShortRef (dir @ ''/b.md|My Note'') None
               = Some \<lparr>ref = ''b'', label = ''My Note''\<rparr>)"
proof -
  have g: "extractShortRef (dir @ ''/b.md|My Note'') None
             = Some \<lparr>ref = ''b'', label = ''My Note''\<rparr>" for dir
  proof -
    have "sublist ''.md'' ((dir @ ''/b'') @ ''.md'' @ ''|My Note'')"
      by (rule sublist_appendI)
    then have r: "\<exists>e\<in>set target_exts. sublist e (dir @ ''/b.md|My Note'')"
      by (auto simp: target_exts_def)
    have b: "basename (dir @ ''/b.md|My Note'') = ''b.md|My Note''"
      by (simp add: basename_def)
    have t: "destructure (split_chr CHR ''|'' (refText None ''b.md|My Note''))
               = \<lparr>ref = ''b'', label = ''My Note''\<rparr>"
      by code_simp
    show ?thesis using r by (simp add: extractShortRef_eq b t del: split_chr.simps)
  qed
  have "extractShortRef (''/notes/a'' @ ''/b.md|My Note'') None
          = Some \<lparr>ref = ''b'', label = ''My Note''\<rparr>"
    by (rule g)
  then show ?thesis using g by simp
qed

text \<open>
  C10: \<^verbatim>\<open>extractLongRef\<close> takes the first occurrence of the base path out of the raw path
  wherever it stands, not only at the front: when the base path first occurs after a
  prefix \<open>u\<close> of the raw path, the reference is made from \<open>u\<close> and what follows the
  occurrence.
\<close>

theorem extractLongRef_removes_first_occurrence:
  assumes "\<forall>j<length u. \<not> prefix base (drop j (u @ base @ v))"
    and "\<exists>e\<in>set target_exts. sublist e (u @ base @ v)"
  shows "extractLongRef base (u @ base @ v) pe =
           Some (destructure (split_chr CHR ''|''
                   (refText pe (replace_all_rx True (Chr bslash) ''/'' (u @ v)))))"
  using assms replace_str_first [of u base v "[]"] by (simp add: extractLongRef_eq)

theorem extractLongRef_removes_first_occurrence_witness:
  "extractLongRef ''notes/'' ''a/notes/b.md'' None = Some \<lparr>ref = ''a/b'', label = ''''\<rparr>"
proof -
  have h1: "\<forall>j<length ''a/''. \<not> prefix ''notes/'' (drop j (''a/'' @ ''notes/'' @ ''b.md''))"
    by (simp add: All_less_Suc)
  have h2: "\<exists>e\<in>set target_exts. sublist e (''a/'' @ ''notes/'' @ ''b.md'')"
    by code_simp
  have r: "destructure (split_chr CHR ''|''
             (refText None (replace_all_rx True (Chr bslash) ''/'' (''a/'' @ ''b.md''))))
           = \<lparr>ref = ''a/b'', label = ''''\<rparr>"
    by code_simp
  show ?thesis
    using extractLongRef_removes_first_occurrence [OF h1 h2, of None] r by simp
qed

text \<open>
  C6: \<^verbatim>\<open>extractLongRef('/notes/', '/notes/a/b.md')\<close> returns the reference \<^verbatim>\<open>a/b\<close> with an
  empty label, and with \<^verbatim>\<open>preserveExtension\<close> set to \<^verbatim>\<open>true\<close> it returns \<^verbatim>\<open>a/b.md\<close> with
  an empty label.
\<close>

theorem extractLongRef_notes_example:
  "extractLongRef ''/notes/'' ''/notes/a/b.md'' None = Some \<lparr>ref = ''a/b'', label = ''''\<rparr>
   \<and> extractLongRef ''/notes/'' ''/notes/a/b.md'' (Some True)
       = Some \<lparr>ref = ''a/b.md'', label = ''''\<rparr>"
  by code_simp

section \<open>The claims about the reference locator\<close>

text \<open>
  C8: whatever the reference and the list \<^verbatim>\<open>excludePaths\<close>, no element of the list that
  \<^verbatim>\<open>findReferences\<close> returns has a location whose file path is in \<^verbatim>\<open>excludePaths\<close>; and
  when the only files with a match are excluded (every other cached file is read and
  holds no match), the result is the empty list.
\<close>

theorem findReferences_excludes:
  "(\<forall>refs. findReferences h cache r excludePaths = Some (Inr refs) \<longrightarrow>
       (\<forall>x\<in>set refs. uri (location x) \<notin> set excludePaths))
   \<and> ((\<forall>p\<in>set (markdownUris cache). p \<notin> set excludePaths \<longrightarrow>
          (\<exists>content pattern. readFileSync h p = Some content
             \<and> newRegExp h (refPatternSource r) ''gi'' = Some pattern
             \<and> pattern 0 content = None))
        \<longrightarrow> findReferences h cache r excludePaths = Some (Inr []))"
proof (intro conjI allI impI)
  fix refs
  assume "findReferences h cache r excludePaths = Some (Inr refs)"
  then show "\<forall>x\<in>set refs. uri (location x) \<notin> set excludePaths"
    unfolding findReferences_def by (auto dest: findReferences_loop_uri)
next
  assume "\<forall>p\<in>set (markdownUris cache). p \<notin> set excludePaths \<longrightarrow>
          (\<exists>content pattern. readFileSync h p = Some content
             \<and> newRegExp h (refPatternSource r) ''gi'' = Some pattern
             \<and> pattern 0 content = None)"
  then show "findReferences h cache r excludePaths = Some (Inr [])"
    unfolding findReferences_def by (rule findReferences_loop_no_match)
qed

theorem findReferences_excludes_witness:
  "findReferences notesHost notesCache ''target'' [''/ws/a.md''] = Some (Inr [])
   \<and> (\<exists>refs. findReferences notesHost notesCache ''target'' [''/ws/b.md''] = Some (Inr refs)
         \<and> length refs = 2 \<and> list_all (\<lambda>x. uri (location x) \<noteq> ''/ws/b.md'') refs)"
proof -
  have n: "refRegExp ''target'' 0 ''No links here.'' = None" by code_simp
  have "\<forall>p\<in>set (markdownUris notesCache). p \<notin> set [''/ws/a.md''] \<longrightarrow>
          (\<exists>content pattern. readFileSync notesHost p = Some content
             \<and> newRegExp notesHost (refPatternSource ''target'') ''gi'' = Some pattern
             \<and> pattern 0 content = None)"
    using n by (simp add: notesCache_def notesHost_newRegExp) (simp add: notesHost_def fixtureHost_def)
  then have a: "findReferences notesHost notesCache ''target'' [''/ws/a.md''] = Some (Inr [])"
    using findReferences_excludes [of notesHost notesCache "''target''" "[''/ws/a.md'']"] by blast
  have "findReferences notesHost notesCache ''target'' [''/ws/b.md''] =
          Some (Inr [\<lparr>location = \<lparr>uri = ''/ws/a.md'',
                         range = \<lparr>range_start = \<lparr>line = 0, character = 6\<rparr>,
                                  range_end = \<lparr>line = 0, character = 12\<rparr>\<rparr>\<rparr>,
                      matchText = ''[[target]] and [[target|Alt]] here.''\<rparr>,
                     \<lparr>location = \<lparr>uri = ''/ws/a.md'',
                         range = \<lparr>range_start = \<lparr>line = 0, character = 21\<rparr>,
                                  range_end = \<lparr>line = 0, character = 31\<rparr>\<rparr>\<rparr>,
                      matchText = ''[[target|Alt]] here.''\<rparr>])"
    (is "_ = Some (Inr ?refs)")
    by code_simp
  moreover from this have "\<forall>x\<in>set ?refs. uri (location x) \<notin> set [''/ws/b.md'']"
    using findReferences_excludes [of notesHost notesCache "''target''" "[''/ws/b.md'']"] by blast
  ultimately have "\<exists>refs. findReferences notesHost notesCache ''target'' [''/ws/b.md''] = Some (Inr refs)
         \<and> length refs = 2 \<and> list_all (\<lambda>x. uri (location x) \<noteq> ''/ws/b.md'') refs"
    by (intro exI [of _ ?refs]) (simp add: list_all_iff)
  with a show ?thesis by blast
qed

text \<open>
  C1, as the specification has it: a cached file that cannot be read is skipped and the
  hits of the other files are returned. In the workspace of notes with \<^verbatim>\<open>b.md\<close> deleted
  the call throws the read error of \<^verbatim>\<open>b.md\<close>, and the two hits of \<^verbatim>\<open>a.md\<close>, which the same
  call finds when \<^verbatim>\<open>b.md\<close> is not in the cache, are lost.
\<close>

theorem findReferences_unreadable_counterexample:
  "findReferences notesHostDeleted notesCache ''target'' [] = Some (Inl (ReadError ''/ws/b.md''))
   \<and> readFileSync notesHostDeleted ''/ws/b.md'' = None
   \<and> (\<exists>refs. findReferences notesHostDeleted \<lparr>imageUris = [], markdownUris = [''/ws/a.md'']\<rparr>
                 ''target'' [] = Some (Inr refs) \<and> length refs = 2)"
proof -
  have "findReferences notesHostDeleted notesCache ''target'' [] = Some (Inl (ReadError ''/ws/b.md''))"
    by code_simp
  moreover have "readFileSync notesHostDeleted ''/ws/b.md'' = None"
    by (simp add: notesHostDeleted_def fixtureHost_def)
  moreover have "findReferences notesHostDeleted \<lparr>imageUris = [], markdownUris = [''/ws/a.md'']\<rparr>
                 ''target'' [] =
          Some (Inr [\<lparr>location = \<lparr>uri = ''/ws/a.md'',
                         range = \<lparr>range_start = \<lparr>line = 0, character = 6\<rparr>,
                                  range_end = \<lparr>line = 0, character = 12\<rparr>\<rparr>\<rparr>,
                      matchText = ''[[target]] and [[target|Alt]] here.''\<rparr>,
                     \<lparr>location = \<lparr>uri = ''/ws/a.md'',
                         range = \<lparr>range_start = \<lparr>line = 0, character = 21\<rparr>,
                                  range_end = \<lparr>line = 0, character = 31\<rparr>\<rparr>\<rparr>,
                      matchText = ''[[target|Alt]] here.''\<rparr>])"
    by code_simp
  ultimately show ?thesis by simp
qed

text \<open>
  C1, amended: a cached markdown file that is not in \<^verbatim>\<open>excludePaths\<close> and cannot be read
  is not skipped. When the scan of the files cached before it returns its hits, the call
  throws the read error of that file: the hits collected so far are lost and the files
  after it are not scanned. When the scan of the files before it throws or does not
  return, the call ends as that scan does. In neither case is a list returned. The files
  in \<^verbatim>\<open>excludePaths\<close> are the only ones skipped, and they are not read at all: whether
  they can be read changes nothing.
\<close>

theorem findReferences_unreadable_aborts:
  "(p \<in> set (markdownUris cache) \<and> p \<notin> set excludePaths \<and> readFileSync h p = None
      \<longrightarrow> (\<forall>refs. findReferences h cache r excludePaths \<noteq> Some (Inr refs)))
   \<and> (markdownUris cache = pre @ p # post \<and> p \<notin> set excludePaths \<and> readFileSync h p = None
      \<longrightarrow> (\<forall>hits. findReferences h (cache\<lparr>markdownUris := pre\<rparr>) r excludePaths = Some (Inr hits)
              \<longrightarrow> findReferences h cache r excludePaths = Some (Inl (ReadError p)))
          \<and> ((\<forall>hits. findReferences h (cache\<lparr>markdownUris := pre\<rparr>) r excludePaths
                        \<noteq> Some (Inr hits))
              \<longrightarrow> findReferences h cache r excludePaths
                    = findReferences h (cache\<lparr>markdownUris := pre\<rparr>) r excludePaths))
   \<and> (markdownUris cache = pre @ p # post \<and> set pre \<subseteq> set excludePaths
        \<and> p \<notin> set excludePaths \<and> readFileSync h p = None
      \<longrightarrow> findReferences h cache r excludePaths = Some (Inl (ReadError p)))
   \<and> ((\<forall>q. q \<notin> set excludePaths \<longrightarrow> rd q = readFileSync h q)
      \<longrightarrow> findReferences (h\<lparr>readFileSync := rd\<rparr>) cache r excludePaths
            = findReferences h cache r excludePaths)"
proof -
  have 1: "p \<in> set (markdownUris cache) \<and> p \<notin> set excludePaths \<and> readFileSync h p = None
      \<longrightarrow> (\<forall>refs. findReferences h cache r excludePaths \<noteq> Some (Inr refs))"
    unfolding findReferences_def by (auto dest: findReferences_loop_unreadable)
  have 2: "markdownUris cache = pre @ p # post \<and> p \<notin> set excludePaths \<and> readFileSync h p = None
      \<longrightarrow> (\<forall>hits. findReferences h (cache\<lparr>markdownUris := pre\<rparr>) r excludePaths = Some (Inr hits)
              \<longrightarrow> findReferences h cache r excludePaths = Some (Inl (ReadError p)))
          \<and> ((\<forall>hits. findReferences h (cache\<lparr>markdownUris := pre\<rparr>) r excludePaths
                        \<noteq> Some (Inr hits))
              \<longrightarrow> findReferences h cache r excludePaths
                    = findReferences h (cache\<lparr>markdownUris := pre\<rparr>) r excludePaths)"
  proof
    assume "markdownUris cache = pre @ p # post \<and> p \<notin> set excludePaths \<and> readFileSync h p = None"
    then have eq: "findReferences h cache r excludePaths =
        (case findReferences h (cache\<lparr>markdownUris := pre\<rparr>) r excludePaths of
           Some (Inr refs') \<Rightarrow> Some (Inl (ReadError p))
         | Some (Inl e) \<Rightarrow> Some (Inl e)
         | None \<Rightarrow> None)"
      unfolding findReferences_def by (simp add: findReferences_loop_after_prefix)
    show "(\<forall>hits. findReferences h (cache\<lparr>markdownUris := pre\<rparr>) r excludePaths = Some (Inr hits)
              \<longrightarrow> findReferences h cache r excludePaths = Some (Inl (ReadError p)))
          \<and> ((\<forall>hits. findReferences h (cache\<lparr>markdownUris := pre\<rparr>) r excludePaths
                        \<noteq> Some (Inr hits))
              \<longrightarrow> findReferences h cache r excludePaths
                    = findReferences h (cache\<lparr>markdownUris := pre\<rparr>) r excludePaths)"
      unfolding eq by (auto split: option.splits sum.splits)
  qed
  have 3: "markdownUris cache = pre @ p # post \<and> set pre \<subseteq> set excludePaths
        \<and> p \<notin> set excludePaths \<and> readFileSync h p = None
      \<longrightarrow> findReferences h cache r excludePaths = Some (Inl (ReadError p))"
    unfolding findReferences_def by (simp add: findReferences_loop_first_unreadable)
  have 4: "(\<forall>q. q \<notin> set excludePaths \<longrightarrow> rd q = readFileSync h q)
      \<longrightarrow> findReferences (h\<lparr>readFileSync := rd\<rparr>) cache r excludePaths
            = findReferences h cache r excludePaths"
    unfolding findReferences_def by (simp add: findReferences_loop_excluded_not_read)
  from 1 2 3 4 show ?thesis by (intro conjI)
qed

theorem findReferences_unreadable_aborts_witness:
  "(\<forall>refs. findReferences notesHostDeleted notesCache ''target'' [] \<noteq> Some (Inr refs))
   \<and> (\<exists>hits. findReferences notesHostDeleted (notesCache\<lparr>markdownUris := [''/ws/a.md'']\<rparr>)
                 ''target'' [] = Some (Inr hits) \<and> length hits = 2)
   \<and> findReferences notesHostDeleted notesCache ''target'' [] = Some (Inl (ReadError ''/ws/b.md''))
   \<and> findReferences notesHostDeleted notesCache ''target'' [''/ws/a.md'']
       = Some (Inl (ReadError ''/ws/b.md''))
   \<and> findReferences (notesHost\<lparr>readFileSync := (readFileSync notesHost)(''/ws/a.md'' := None)\<rparr>)
         notesCache ''target'' [''/ws/a.md'']
       = findReferences notesHost notesCache ''target'' [''/ws/a.md'']"
proof -
  have d: "readFileSync notesHostDeleted ''/ws/b.md'' = None"
    by (simp add: notesHostDeleted_def fixtureHost_def)
  have "''/ws/b.md'' \<in> set (markdownUris notesCache) \<and> ''/ws/b.md'' \<notin> set []
          \<and> readFileSync notesHostDeleted ''/ws/b.md'' = None"
    using d by (simp add: notesCache_def)
  then have 1: "\<forall>refs. findReferences notesHostDeleted notesCache ''target'' [] \<noteq> Some (Inr refs)"
    using findReferences_unreadable_aborts
      [of "''/ws/b.md''" notesCache "[]" notesHostDeleted "''target''"]
    by blast
  have hits: "findReferences notesHostDeleted (notesCache\<lparr>markdownUris := [''/ws/a.md'']\<rparr>)
                 ''target'' [] =
          Some (Inr [\<lparr>location = \<lparr>uri = ''/ws/a.md'',
                         range = \<lparr>range_start = \<lparr>line = 0, character = 6\<rparr>,
                                  range_end = \<lparr>line = 0, character = 12\<rparr>\<rparr>\<rparr>,
                      matchText = ''[[target]] and [[target|Alt]] here.''\<rparr>,
                     \<lparr>location = \<lparr>uri = ''/ws/a.md'',
                         range = \<lparr>range_start = \<lparr>line = 0, character = 21\<rparr>,
                                  range_end = \<lparr>line = 0, character = 31\<rparr>\<rparr>\<rparr>,
                      matchText = ''[[target|Alt]] here.''\<rparr>])"
    by code_simp
  then have 2: "\<exists>hits. findReferences notesHostDeleted (notesCache\<lparr>markdownUris := [''/ws/a.md'']\<rparr>)
                 ''target'' [] = Some (Inr hits) \<and> length hits = 2"
    by simp
  have "markdownUris notesCache = [''/ws/a.md''] @ ''/ws/b.md'' # []
          \<and> ''/ws/b.md'' \<notin> set [] \<and> readFileSync notesHostDeleted ''/ws/b.md'' = None"
    using d by (simp add: notesCache_def)
  then have 3: "findReferences notesHostDeleted notesCache ''target'' []
                  = Some (Inl (ReadError ''/ws/b.md''))"
    using hits findReferences_unreadable_aborts
      [of "''/ws/b.md''" notesCache "[]" notesHostDeleted "''target''" "[''/ws/a.md'']" "[]"]
    by blast
  have "markdownUris notesCache = [''/ws/a.md''] @ ''/ws/b.md'' # []
          \<and> set [''/ws/a.md''] \<subseteq> set [''/ws/a.md''] \<and> ''/ws/b.md'' \<notin> set [''/ws/a.md'']
          \<and> readFileSync notesHostDeleted ''/ws/b.md'' = None"
    using d by (simp add: notesCache_def)
  then have 4: "findReferences notesHostDeleted notesCache ''target'' [''/ws/a.md'']
                  = Some (Inl (ReadError ''/ws/b.md''))"
    using findReferences_unreadable_aborts
      [of "''/ws/b.md''" notesCache "[''/ws/a.md'']" notesHostDeleted "''target''"
          "[''/ws/a.md'']" "[]"]
    by blast
  have "\<forall>q. q \<notin> set [''/ws/a.md''] \<longrightarrow>
           ((readFileSync notesHost)(''/ws/a.md'' := None)) q = readFileSync notesHost q"
    by simp
  then have 5: "findReferences (notesHost\<lparr>readFileSync := (readFileSync notesHost)(''/ws/a.md'' := None)\<rparr>)
         notesCache ''target'' [''/ws/a.md'']
       = findReferences notesHost notesCache ''target'' [''/ws/a.md'']"
    using findReferences_unreadable_aborts
      [of _ notesCache "[''/ws/a.md'']" notesHost "''target''" _ _
          "(readFileSync notesHost)(''/ws/a.md'' := None)"]
    by blast
  from 1 2 3 4 5 show ?thesis by blast
qed

end
